theory Spec2Isabelle
  imports Main "HOL-Library.Sublist"
begin

section \<open>Data\<close>

text \<open>
  The \<open>languages\<close> object maps a language name to a numeric weight. It is modelled by
  the list of its entries in the order in which \<open>Object.entries\<close> enumerates them; a
  JavaScript object holds every key once, so the keys of such a list are distinct.
  Weights are integers; the sort uses only the sign of \<open>b[1] - a[1]\<close>.
\<close>

type_synonym language_frequency = "(string \<times> int) list"

section \<open>Component state (CV.jsx, CVMaker)\<close>

text \<open>
  The JSON values the component receives. It reads three properties of \<open>user_data\<close> and
  seven of each repository; \<open>null\<close> or absent strings are \<open>None\<close>.
\<close>

record profile =
  public_repos :: int
  followers :: int
  created_at :: string

record project =
  repo_name :: string
  repo_created_at :: string
  repo_updated_at :: string
  repo_language :: "string option"
  enhanced_description :: string
  homepage :: "string option"
  html_url :: string

text \<open>
  The success body of the profile lookup, \<open>{ user_data, top_repos, languages }\<close>
  (its \<open>languages\<close> property is the field \<open>data_languages\<close>).
\<close>

record lookup_data =
  user_data :: profile
  top_repos :: "project list"
  data_languages :: language_frequency

text \<open>
  \<open>formData\<close> is an object with string values, written through a computed key in
  \<open>handleChange\<close>: a map from property names to strings, where \<open>None\<close> is a property
  that is not there (\<open>undefined\<close>).
\<close>

type_synonym form_data = "string \<rightharpoonup> string"

record component =
  formData :: form_data
  githubData :: "profile option"
  topProjects :: "project list"
  languages :: language_frequency
  isLoading :: bool
  error :: string
  showCV :: bool

definition initial :: component where
  "initial =
     \<lparr> formData =
         [''name'' \<mapsto> '''', ''email'' \<mapsto> '''', ''phone'' \<mapsto> '''', ''education'' \<mapsto> '''',
          ''university'' \<mapsto> '''', ''graduation'' \<mapsto> '''', ''description'' \<mapsto> '''',
          ''githubUsername'' \<mapsto> '''', ''skills'' \<mapsto> ''''],
       githubData = None, topProjects = [], languages = [],
       isLoading = False, error = '''', showCV = False \<rparr>"

definition API_URL :: string where
  "API_URL = ''http://localhost:5000''"

text \<open>
  What JavaScript does with a property that is a string or \<open>undefined\<close>:
  \<open>!v\<close>, \<open>v || d\<close>, \<open>${v}\<close> in a template literal, and \<open>{v}\<close> in JSX.
\<close>

definition falsy :: "string option \<Rightarrow> bool" where
  "falsy v = (case v of None \<Rightarrow> True | Some s \<Rightarrow> s = [])"

definition or_else :: "string option \<Rightarrow> string \<Rightarrow> string" where
  "or_else v d = (case v of None \<Rightarrow> d | Some s \<Rightarrow> if s = [] then d else s)"

definition template :: "string option \<Rightarrow> string" where
  "template v = (case v of None \<Rightarrow> ''undefined'' | Some s \<Rightarrow> s)"

definition jsx_text :: "string option \<Rightarrow> string" where
  "jsx_text v = (case v of None \<Rightarrow> [] | Some s \<Rightarrow> s)"


section \<open>The network\<close>

text \<open>
  A request is a \<open>fetch\<close> call: the URL, and for the POST its headers and the two
  properties of the object that is serialised into the body.
\<close>

datatype request =
    HttpGet string
  | HttpPost string "(string \<times> string) list" form_data lookup_data

text \<open>
  How an awaited call ends is the environment's choice and a parameter of the model.
  \<open>fetch\<close> rejects with an error that has a message (a network failure), or resolves
  with a response whose \<open>ok\<close> flag is false or true. Reading the body,
  \<open>await response.json()\<close> and the property access that follows, throws an error with a
  message or gives the value: for a response that is not ok the \<open>error\<close> property of
  the body (\<open>None\<close> when it has none), for the lookup's ok response the three entities.
  The body of the generation's ok response is never read.
\<close>

datatype 'a json_body = JsonThrows string | Json 'a

datatype lookup_reply =
    LookupRejects string
  | LookupNotOk "string option json_body"
  | LookupOk "lookup_data json_body"

datatype generate_reply =
    GenerateRejects string
  | GenerateNotOk "string option json_body"
  | GenerateOk

text \<open>What one call of \<open>generateCV\<close> does on the network, in the order it happens.\<close>

datatype io =
    Issued request
  | LookupSettled lookup_reply
  | GenerateSettled generate_reply


section \<open>Event handlers\<close>

text \<open>\<^verbatim>\<open>setFormData({ ...formData, [name]: value })\<close>\<close>

definition handleChange :: "string \<Rightarrow> string \<Rightarrow> component \<Rightarrow> component" where
  "handleChange name value st = st\<lparr>formData := (formData st)(name \<mapsto> value)\<rparr>"

text \<open>
  \<open>fetchGitHubData\<close> returns \<open>undefined\<close> from its guard, \<open>null\<close> from its
  \<open>catch\<close>, and the parsed body otherwise.
\<close>

datatype fetch_value = Undefined | Null | Data lookup_data

text \<open>
  The \<open>try\<close> block of \<open>fetchGitHubData\<close> from the point where the awaited \<open>fetch\<close>
  settles: \<open>Inl\<close> is the message of the error that reaches the \<open>catch\<close>.
\<close>

fun lookup_response :: "lookup_reply \<Rightarrow> string + lookup_data" where
  "lookup_response (LookupRejects message) = Inl message"
| "lookup_response (LookupNotOk (JsonThrows message)) = Inl message"
| "lookup_response (LookupNotOk (Json errorData_error)) =
     Inl (or_else errorData_error ''Failed to fetch GitHub data'')"
| "lookup_response (LookupOk (JsonThrows message)) = Inl message"
| "lookup_response (LookupOk (Json data)) = Inr data"

text \<open>
  \<open>fetchGitHubData\<close> up to its \<open>await fetch(...)\<close>: the guard on the username, the two
  setters, and the request it issues (\<open>None\<close> when the guard returns).
\<close>

definition fetchGitHubData_start :: "component \<Rightarrow> component \<times> request option" where
  "fetchGitHubData_start st =
     (if falsy (formData st ''githubUsername'')
      then (st\<lparr>error := ''Please enter a GitHub username''\<rparr>, None)
      else (st\<lparr>isLoading := True, error := ''''\<rparr>,
            Some (HttpGet (API_URL @ ''/api/github-profile?username=''
                             @ template (formData st ''githubUsername'')))))"

text \<open>\<open>fetchGitHubData\<close> from there on: the rest of \<open>try\<close>, \<open>catch\<close> and \<open>finally\<close>.\<close>

definition fetchGitHubData_settle :: "lookup_reply \<Rightarrow> component \<Rightarrow> fetch_value \<times> component" where
  "fetchGitHubData_settle reply st =
     (case lookup_response reply of
        Inr data \<Rightarrow>
          (Data data,
           st\<lparr>githubData := Some (user_data data), topProjects := top_repos data,
              languages := data_languages data, isLoading := False\<rparr>)
      | Inl message \<Rightarrow> (Null, st\<lparr>error := message, isLoading := False\<rparr>))"

definition fetchGitHubData :: "lookup_reply \<Rightarrow> component \<Rightarrow> fetch_value \<times> component \<times> io list" where
  "fetchGitHubData reply st =
     (case fetchGitHubData_start st of
        (st1, None) \<Rightarrow> (Undefined, st1, [])
      | (st1, Some req) \<Rightarrow>
          (case fetchGitHubData_settle reply st1 of
             (result, st2) \<Rightarrow> (result, st2, [Issued req, LookupSettled reply])))"

text \<open>The \<open>try\<close> block of \<open>generateCV\<close> from the point where its \<open>fetch\<close> settles.\<close>

fun generate_response :: "generate_reply \<Rightarrow> string + unit" where
  "generate_response (GenerateRejects message) = Inl message"
| "generate_response (GenerateNotOk (JsonThrows message)) = Inl message"
| "generate_response (GenerateNotOk (Json errorData_error)) =
     Inl (or_else errorData_error ''Failed to generate CV'')"
| "generate_response GenerateOk = Inr ()"

definition generateCV_settle :: "generate_reply \<Rightarrow> component \<Rightarrow> component" where
  "generateCV_settle reply st =
     (case generate_response reply of
        Inr _ \<Rightarrow> st\<lparr>showCV := True\<rparr>
      | Inl message \<Rightarrow> st\<lparr>error := message\<rparr>)"

definition required_missing :: "form_data \<Rightarrow> bool" where
  "required_missing fd \<longleftrightarrow>
     falsy (fd ''name'') \<or> falsy (fd ''email'') \<or> falsy (fd ''education'')
     \<or> falsy (fd ''university'')"

definition generate_request :: "form_data \<Rightarrow> lookup_data \<Rightarrow> request" where
  "generate_request fd githubResult =
     HttpPost (API_URL @ ''/api/generate-cv'')
       [(''Content-Type'', ''application/json'')] fd githubResult"

text \<open>
  One call of \<open>generateCV\<close> that runs to its end with nothing else in between, given how
  its two awaited calls settle. \<open>formData\<close> is the one of the render in which the button
  was clicked.
\<close>

definition generateCV :: "lookup_reply \<Rightarrow> generate_reply \<Rightarrow> component \<Rightarrow> component \<times> io list" where
  "generateCV lookup generation st =
     (if required_missing (formData st)
      then (st\<lparr>error := ''Please fill in all required fields''\<rparr>, [])
      else
        (case fetchGitHubData lookup st of
           (Data githubResult, st1, calls) \<Rightarrow>
             (generateCV_settle generation st1,
              calls @ [Issued (generate_request (formData st) githubResult),
                       GenerateSettled generation])
         | (_, st1, calls) \<Rightarrow> (st1, calls)))"


section \<open>Top-language ranking and the rendered view\<close>

text \<open>
  \<open>Array.prototype.sort(cmp)\<close>: the language standard (ECMAScript 2019 and later) requires
  a stable sort, and an element \<open>a\<close> stays in front of \<open>b\<close> unless \<open>cmp a b > 0\<close>.
  The model inserts each element, from the right, in front of the first element that it
  does not have to follow.
\<close>

fun sort_insert :: "('a \<Rightarrow> 'a \<Rightarrow> int) \<Rightarrow> 'a \<Rightarrow> 'a list \<Rightarrow> 'a list" where
  "sort_insert cmp a [] = [a]"
| "sort_insert cmp a (b # bs) =
     (if cmp a b \<le> 0 then a # b # bs else b # sort_insert cmp a bs)"

definition array_sort :: "('a \<Rightarrow> 'a \<Rightarrow> int) \<Rightarrow> 'a list \<Rightarrow> 'a list" where
  "array_sort cmp xs = foldr (sort_insert cmp) xs []"

text \<open>\<open>xs.slice(0, n)\<close> for a non-negative \<open>n\<close>.\<close>

definition slice0 :: "nat \<Rightarrow> 'a list \<Rightarrow> 'a list" where
  "slice0 n xs = take n xs"

text \<open>
  \<^verbatim>\<open>Object.entries(languages).sort((a, b) => b[1] - a[1]).slice(0, 5).map(lang => lang[0])\<close>
  as a function of \<open>Object.entries(languages)\<close>.
\<close>

definition getTopLanguages :: "language_frequency \<Rightarrow> string list" where
  "getTopLanguages entries =
     map (\<lambda>lang. fst lang)
       (slice0 5 (array_sort (\<lambda>a b. snd b - snd a) entries))"

text \<open>The mapping of the specification's example, in the order it is written.\<close>

definition example_languages :: language_frequency where
  "example_languages =
     [(''Python'', 10), (''JS'', 30), (''Go'', 5), (''Rust'', 30), (''C'', 1), (''Java'', 2)]"


text \<open>\<open>xs.join(sep)\<close> on an array of strings.\<close>

fun join :: "string \<Rightarrow> string list \<Rightarrow> string" where
  "join sep [] = []"
| "join sep [x] = x"
| "join sep (x # y # ys) = x @ sep @ join sep (y # ys)"

text \<open>The bullet character of the contact line, in UTF-8.\<close>

definition bullet :: string where
  "bullet = [CHR 0xE2, CHR 0x80, CHR 0xA2]"

text \<open>
  The form view: the nine inputs with their \<open>name\<close> and value, whether the loading note is
  shown, and the error paragraph (absent when \<open>error\<close> is the empty string).
  The document view: the text of the header, summary, education and technical-skills
  sections. Its project and statistics sections format dates with the browser's locale
  and are not part of the model.
\<close>

record cv_document =
  cv_name :: string
  cv_contact :: string
  cv_summary :: string
  cv_university :: string
  cv_education :: string
  cv_graduation :: string
  cv_languages :: string
  cv_skills :: "string option"

datatype view =
    FormView "(string \<times> string) list" bool "string option"
  | DocumentView cv_document

definition render :: "component \<Rightarrow> view" where
  "render st =
     (if \<not> showCV st
      then FormView
             (map (\<lambda>n. (n, jsx_text (formData st n)))
                [''name'', ''email'', ''phone'', ''githubUsername'', ''description'',
                 ''education'', ''university'', ''graduation'', ''skills''])
             (isLoading st)
             (if error st = [] then None else Some (error st))
      else DocumentView
             \<lparr> cv_name = jsx_text (formData st ''name''),
               cv_contact =
                 jsx_text (formData st ''email'') @ '' '' @ bullet @ '' ''
                 @ jsx_text (formData st ''phone'') @ '' '' @ bullet @ '' GitHub: ''
                 @ jsx_text (formData st ''githubUsername''),
               cv_summary = jsx_text (formData st ''description''),
               cv_university = jsx_text (formData st ''university''),
               cv_education = jsx_text (formData st ''education''),
               cv_graduation = jsx_text (formData st ''graduation''),
               cv_languages =
                 ''Programming Languages: '' @ join '', '' (getTopLanguages (languages st)),
               cv_skills =
                 (if falsy (formData st ''skills'') then None
                  else Some (''Additional Skills: '' @ jsx_text (formData st ''skills''))) \<rparr>)"


section \<open>The component as a transition system\<close>

text \<open>
  Between two awaited calls the browser runs other handlers, and nothing stops a second
  click on the button, or typing into an input, while a call of \<open>generateCV\<close> is
  suspended. A session is the component's state, the suspended calls of \<open>generateCV\<close>
  and the requests issued so far. A call that waits for its lookup holds the \<open>formData\<close>
  of the render in which the button was clicked, which it will post; a call that waits
  for its generation request needs nothing more. \<open>fetched\<close> is not state of the
  program: it records the body of the latest lookup that succeeded.
\<close>

datatype suspended = AwaitingLookup form_data | AwaitingGenerate

record session =
  comp :: component
  suspended_calls :: "suspended list"
  issued :: "request list"
  fetched :: "lookup_data option"

definition initial_session :: session where
  "initial_session = \<lparr> comp = initial, suspended_calls = [], issued = [], fetched = None \<rparr>"

text \<open>
  What can happen: typing into an input, a click on "Generate CV", the lookup or the
  generation request of the \<open>i\<close>-th suspended call settling, a click on "Back to Form",
  a click on "Print". The inputs and the first button exist in the form view only, the
  other two buttons in the document view only; an event that cannot happen leaves the
  session as it is.
\<close>

datatype event =
    Change string string
  | ClickGenerate
  | LookupSettles nat lookup_reply
  | GenerateSettles nat generate_reply
  | BackToForm
  | Print

definition remove_nth :: "nat \<Rightarrow> 'a list \<Rightarrow> 'a list" where
  "remove_nth i xs = take i xs @ drop (Suc i) xs"

fun step :: "event \<Rightarrow> session \<Rightarrow> session" where
  "step (Change name value) s =
     (if showCV (comp s) then s else s\<lparr>comp := handleChange name value (comp s)\<rparr>)"
| "step ClickGenerate s =
     (if showCV (comp s) then s
      else if required_missing (formData (comp s))
      then s\<lparr>comp := (comp s)\<lparr>error := ''Please fill in all required fields''\<rparr>\<rparr>
      else
        (case fetchGitHubData_start (comp s) of
           (st1, None) \<Rightarrow> s\<lparr>comp := st1\<rparr>
         | (st1, Some req) \<Rightarrow>
             s\<lparr>comp := st1,
               suspended_calls := suspended_calls s @ [AwaitingLookup (formData (comp s))],
               issued := issued s @ [req]\<rparr>))"
| "step (LookupSettles i reply) s =
     (if i < length (suspended_calls s)
      then
        (case suspended_calls s ! i of
           AwaitingLookup fd \<Rightarrow>
             (case fetchGitHubData_settle reply (comp s) of
                (Data githubResult, st2) \<Rightarrow>
                  s\<lparr>comp := st2,
                    suspended_calls := (suspended_calls s)[i := AwaitingGenerate],
                    issued := issued s @ [generate_request fd githubResult],
                    fetched := Some githubResult\<rparr>
              | (_, st2) \<Rightarrow>
                  s\<lparr>comp := st2, suspended_calls := remove_nth i (suspended_calls s)\<rparr>)
         | AwaitingGenerate \<Rightarrow> s)
      else s)"
| "step (GenerateSettles i reply) s =
     (if i < length (suspended_calls s)
      then
        (case suspended_calls s ! i of
           AwaitingGenerate \<Rightarrow>
             s\<lparr>comp := generateCV_settle reply (comp s),
               suspended_calls := remove_nth i (suspended_calls s)\<rparr>
         | AwaitingLookup fd \<Rightarrow> s)
      else s)"
| "step BackToForm s =
     (if showCV (comp s) then s\<lparr>comp := (comp s)\<lparr>showCV := False\<rparr>\<rparr> else s)"
| "step Print s = s"

definition run :: "event list \<Rightarrow> session \<Rightarrow> session" where
  "run events s = foldl (\<lambda>s e. step e s) s events"



section \<open>Invariant and sample inputs\<close>

text \<open>The component holds the entities of a lookup body.\<close>

definition holds_data :: "lookup_data \<Rightarrow> component \<Rightarrow> bool" where
  "holds_data d st \<longleftrightarrow>
     githubData st = Some (user_data d) \<and> topProjects st = top_repos d
     \<and> languages st = data_languages d"

text \<open>
  As long as no lookup has succeeded the document view is off and no call waits for its
  generation request; afterwards the component holds what the latest successful lookup
  returned.
\<close>

definition consistent :: "session \<Rightarrow> bool" where
  "consistent s \<longleftrightarrow>
     (case fetched s of
        None \<Rightarrow> \<not> showCV (comp s) \<and> AwaitingGenerate \<notin> set (suspended_calls s)
      | Some d \<Rightarrow> holds_data d (comp s))"

definition example_data :: lookup_data where
  "example_data =
     \<lparr> user_data = \<lparr> public_repos = 12, followers = 3, created_at = ''2019-05-01T00:00:00Z'' \<rparr>,
       top_repos = [],
       data_languages = example_languages \<rparr>"

definition example_form :: component where
  "example_form =
     handleChange ''githubUsername'' ''ada''
       (handleChange ''university'' ''KU''
          (handleChange ''education'' ''BSc''
             (handleChange ''email'' ''ada@example.org''
                (handleChange ''name'' ''Ada'' initial))))"

definition example_events :: "event list" where
  "example_events =
     [Change ''name'' ''Ada'', Change ''email'' ''ada@example.org'',
      Change ''education'' ''BSc'', Change ''university'' ''KU'',
      Change ''githubUsername'' ''ada'', ClickGenerate,
      LookupSettles 0 (LookupOk (Json example_data)), GenerateSettles 0 GenerateOk]"




section \<open>Properties of the sort\<close>

lemma set_sort_insert: "set (sort_insert cmp a bs) = insert a (set bs)"
  by (induction bs) auto

lemma set_array_sort: "set (array_sort cmp xs) = set xs"
  by (induction xs) (simp_all add: array_sort_def set_sort_insert)

lemma length_sort_insert: "length (sort_insert cmp a bs) = Suc (length bs)"
  by (induction bs) simp_all

lemma length_array_sort: "length (array_sort cmp xs) = length xs"
  by (induction xs) (simp_all add: array_sort_def length_sort_insert)

lemma descending_sort_insert:
  fixes bs :: "('k \<times> int) list"
  assumes "sorted_wrt (\<lambda>x y. snd y \<le> snd x) bs"
  shows "sorted_wrt (\<lambda>x y. snd y \<le> snd x) (sort_insert (\<lambda>a b. snd b - snd a) a bs)"
  using assms
proof (induction bs)
  case Nil
  show ?case by simp
next
  case (Cons b bs)
  show ?case
  proof (cases "snd b \<le> snd a")
    case True
    with Cons.prems show ?thesis by fastforce
  next
    case False
    with Cons show ?thesis by (auto simp: set_sort_insert)
  qed
qed

lemma descending_array_sort:
  fixes xs :: "('k \<times> int) list"
  shows "sorted_wrt (\<lambda>x y. snd y \<le> snd x) (array_sort (\<lambda>a b. snd b - snd a) xs)"
proof (induction xs)
  case Nil
  show ?case by (simp add: array_sort_def)
next
  case (Cons x xs)
  from descending_sort_insert [OF Cons.IH, of x]
  show ?case by (simp add: array_sort_def)
qed

text \<open>Stability: the entries of any one weight keep their order.\<close>

lemma filter_weight_sort_insert:
  fixes bs :: "('k \<times> int) list"
  shows "filter (\<lambda>e. snd e = w) (sort_insert (\<lambda>a b. snd b - snd a) a bs) =
         (if snd a = w then a # filter (\<lambda>e. snd e = w) bs else filter (\<lambda>e. snd e = w) bs)"
  by (induction bs) auto

lemma filter_weight_array_sort:
  fixes xs :: "('k \<times> int) list"
  shows "filter (\<lambda>e. snd e = w) (array_sort (\<lambda>a b. snd b - snd a) xs) =
         filter (\<lambda>e. snd e = w) xs"
proof (induction xs)
  case Nil
  show ?case by (simp add: array_sort_def)
next
  case (Cons x xs)
  have "array_sort (\<lambda>a b. snd b - snd a) (x # xs) =
        sort_insert (\<lambda>a b. snd b - snd a) x (array_sort (\<lambda>a b. snd b - snd a) xs)"
    by (simp add: array_sort_def)
  with Cons.IH show ?case by (simp add: filter_weight_sort_insert)
qed



lemma distinct_map_sort_insert:
  "distinct (map g (sort_insert cmp a bs)) \<longleftrightarrow> g a \<notin> g ` set bs \<and> distinct (map g bs)"
  by (induction bs) (auto simp: set_sort_insert)

lemma distinct_map_array_sort:
  "distinct (map g (array_sort cmp xs)) \<longleftrightarrow> distinct (map g xs)"
proof (induction xs)
  case Nil
  show ?case by (simp add: array_sort_def)
next
  case (Cons x xs)
  have "array_sort cmp (x # xs) = sort_insert cmp x (array_sort cmp xs)"
    by (simp add: array_sort_def)
  with Cons.IH show ?case
    by (simp add: distinct_map_sort_insert set_array_sort)
qed


lemma prefix_filter_take: "prefix (filter P (take n xs)) (filter P xs)"
proof -
  have "filter P xs = filter P (take n xs) @ filter P (drop n xs)"
    by (metis append_take_drop_id filter_append)
  then show ?thesis by (simp add: prefixI)
qed

lemma weight_of_entry:
  assumes "distinct (map fst ls)" and "e \<in> set ls"
  shows "map_of ls (fst e) = Some (snd e)"
  using assms by (cases e) simp

section \<open>Properties of the handlers\<close>

lemma fetchGitHubData_guard:
  assumes "falsy (formData st ''githubUsername'')"
  shows "fetchGitHubData reply st =
           (Undefined, st\<lparr>error := ''Please enter a GitHub username''\<rparr>, [])"
  using assms by (simp add: fetchGitHubData_def fetchGitHubData_start_def)

lemma fetchGitHubData_issued:
  assumes "\<not> falsy (formData st ''githubUsername'')"
  shows "fetchGitHubData reply st =
     (fst (fetchGitHubData_settle reply (st\<lparr>isLoading := True, error := ''''\<rparr>)),
      snd (fetchGitHubData_settle reply (st\<lparr>isLoading := True, error := ''''\<rparr>)),
      [Issued (HttpGet (API_URL @ ''/api/github-profile?username=''
                          @ template (formData st ''githubUsername''))),
       LookupSettled reply])"
  using assms
  by (simp add: fetchGitHubData_def fetchGitHubData_start_def split: prod.splits)

lemma settle_failed:
  assumes "lookup_response reply = Inl m"
  shows "fetchGitHubData_settle reply st = (Null, st\<lparr>error := m, isLoading := False\<rparr>)"
  using assms by (simp add: fetchGitHubData_settle_def)

lemma settle_succeeded:
  assumes "lookup_response reply = Inr d"
  shows "fetchGitHubData_settle reply st =
    (Data d, st\<lparr>githubData := Some (user_data d), topProjects := top_repos d,
              languages := data_languages d, isLoading := False\<rparr>)"
  using assms by (simp add: fetchGitHubData_settle_def)


text \<open>The network calls of one \<open>generateCV\<close>: none, the lookup alone, or both in order.\<close>

lemma generateCV_calls:
  "snd (generateCV lookup generation st) = [] \<or>
   (\<exists>url m. lookup_response lookup = Inl m \<and>
      snd (generateCV lookup generation st) = [Issued (HttpGet url), LookupSettled lookup]) \<or>
   (\<exists>url d. lookup_response lookup = Inr d \<and>
      snd (generateCV lookup generation st) =
        [Issued (HttpGet url), LookupSettled lookup,
         Issued (generate_request (formData st) d), GenerateSettled generation])"
proof (cases "required_missing (formData st) \<or> falsy (formData st ''githubUsername'')")
  case True
  then have "snd (generateCV lookup generation st) = []"
    by (auto simp: generateCV_def fetchGitHubData_guard)
  then show ?thesis by simp
next
  case False
  show ?thesis
  proof (cases "lookup_response lookup")
    case (Inl m)
    with False have "snd (generateCV lookup generation st) =
        [Issued (HttpGet (API_URL @ ''/api/github-profile?username=''
                            @ template (formData st ''githubUsername''))),
         LookupSettled lookup]"
      by (simp add: generateCV_def fetchGitHubData_issued settle_failed)
    with Inl show ?thesis by blast
  next
    case (Inr d)
    with False have "snd (generateCV lookup generation st) =
        [Issued (HttpGet (API_URL @ ''/api/github-profile?username=''
                            @ template (formData st ''githubUsername''))),
         LookupSettled lookup,
         Issued (generate_request (formData st) d), GenerateSettled generation]"
      by (simp add: generateCV_def fetchGitHubData_issued settle_succeeded)
    with Inr show ?thesis by blast
  qed
qed


section \<open>The invariant of the transition system\<close>

lemma set_remove_nth: "set (remove_nth i xs) \<subseteq> set xs"
  unfolding remove_nth_def using set_take_subset [of i xs] set_drop_subset [of "Suc i" xs]
  by auto




lemma lookup_settles_failed:
  assumes "i < length (suspended_calls s)" and "suspended_calls s ! i = AwaitingLookup fd"
    and "lookup_response reply = Inl m"
  shows "step (LookupSettles i reply) s =
         s\<lparr>comp := (comp s)\<lparr>error := m, isLoading := False\<rparr>,
           suspended_calls := remove_nth i (suspended_calls s)\<rparr>"
  using assms by (simp add: settle_failed)

lemma lookup_settles_succeeded:
  assumes "i < length (suspended_calls s)" and "suspended_calls s ! i = AwaitingLookup fd"
    and "lookup_response reply = Inr d"
  shows "step (LookupSettles i reply) s =
         s\<lparr>comp := (comp s)\<lparr>githubData := Some (user_data d), topProjects := top_repos d,
                           languages := data_languages d, isLoading := False\<rparr>,
           suspended_calls := (suspended_calls s)[i := AwaitingGenerate],
           issued := issued s @ [generate_request fd d],
           fetched := Some d\<rparr>"
  using assms by (simp add: settle_succeeded)

lemma generate_settles:
  assumes "i < length (suspended_calls s)" and "suspended_calls s ! i = AwaitingGenerate"
  shows "step (GenerateSettles i reply) s =
         s\<lparr>comp := generateCV_settle reply (comp s),
           suspended_calls := remove_nth i (suspended_calls s)\<rparr>"
  using assms by simp

lemma settles_idle:
  assumes "\<not> i < length (suspended_calls s)"
  shows "step (LookupSettles i reply) s = s" and "step (GenerateSettles i generation) s = s"
  using assms by simp_all

lemma consistent_change:
  "consistent s \<Longrightarrow> consistent (step (Change n v) s)"
  by (simp add: consistent_def holds_data_def handleChange_def split: option.splits)

lemma consistent_click:
  "consistent s \<Longrightarrow> consistent (step ClickGenerate s)"
  by (auto simp: consistent_def holds_data_def fetchGitHubData_start_def split: option.splits)

lemma consistent_lookup:
  assumes "consistent s"
  shows "consistent (step (LookupSettles i reply) s)"
proof (cases "i < length (suspended_calls s)")
  case False
  with assms show ?thesis by simp
next
  case True
  show ?thesis
  proof (cases "suspended_calls s ! i")
    case AwaitingGenerate
    with True assms show ?thesis by simp
  next
    case (AwaitingLookup fd)
    show ?thesis
    proof (cases "lookup_response reply")
      case (Inr d)
      show ?thesis
        unfolding lookup_settles_succeeded [OF True AwaitingLookup Inr]
        by (simp add: consistent_def holds_data_def)
    next
      case (Inl m)
      from assms set_remove_nth [of i "suspended_calls s"] show ?thesis
        unfolding lookup_settles_failed [OF True AwaitingLookup Inl]
        by (auto simp: consistent_def holds_data_def split: option.splits)
    qed
  qed
qed

lemma consistent_generate:
  assumes "consistent s"
  shows "consistent (step (GenerateSettles i reply) s)"
proof (cases "i < length (suspended_calls s)")
  case False
  with assms show ?thesis by simp
next
  case True
  show ?thesis
  proof (cases "suspended_calls s ! i")
    case (AwaitingLookup fd)
    with True assms show ?thesis by simp
  next
    case AwaitingGenerate
    with True have "AwaitingGenerate \<in> set (suspended_calls s)"
      by (metis nth_mem)
    with assms obtain d where d: "fetched s = Some d" "holds_data d (comp s)"
      by (auto simp: consistent_def split: option.splits)
    have "holds_data d (generateCV_settle reply (comp s))"
      using d(2) by (simp add: holds_data_def generateCV_settle_def split: sum.splits)
    then show ?thesis
      unfolding generate_settles [OF True AwaitingGenerate]
      using d(1) by (simp add: consistent_def)
  qed
qed

lemma consistent_step: "consistent s \<Longrightarrow> consistent (step e s)"
proof (cases e)
  case (Change n v)
  assume "consistent s"
  then show ?thesis unfolding Change by (rule consistent_change)
next
  case ClickGenerate
  assume "consistent s"
  then show ?thesis unfolding ClickGenerate by (rule consistent_click)
next
  case (LookupSettles i reply)
  assume "consistent s"
  then show ?thesis unfolding LookupSettles by (rule consistent_lookup)
next
  case (GenerateSettles i reply)
  assume "consistent s"
  then show ?thesis unfolding GenerateSettles by (rule consistent_generate)
next
  case BackToForm
  assume "consistent s"
  then show ?thesis unfolding BackToForm
    by (simp add: consistent_def holds_data_def split: option.splits)
next
  case Print
  assume "consistent s"
  then show ?thesis unfolding Print by simp
qed

lemma consistent_run: "consistent s \<Longrightarrow> consistent (run events s)"
  unfolding run_def
  by (induction events arbitrary: s) (simp_all add: consistent_step)

lemma consistent_initial: "consistent initial_session"
  by (simp add: consistent_def initial_session_def initial_def)

lemma example_form_fields:
  "formData example_form ''name'' = Some ''Ada''"
  "formData example_form ''email'' = Some ''ada@example.org''"
  "formData example_form ''education'' = Some ''BSc''"
  "formData example_form ''university'' = Some ''KU''"
  "formData example_form ''githubUsername'' = Some ''ada''"
  by (simp_all add: example_form_def handleChange_def)


lemma example_form_valid:
  "\<not> required_missing (formData example_form)"
  "\<not> falsy (formData example_form ''githubUsername'')"
  by (simp_all add: required_missing_def falsy_def example_form_fields)

section \<open>One uninterrupted call in the transition system\<close>




section \<open>The claims\<close>

text \<open>
  C1. For a mapping with distinct keys, \<open>getTopLanguages\<close> returns the first five names
  (all of them when the mapping has fewer), each a key of the mapping and none twice, in
  descending order of their weights, and no name it leaves out weighs more than a name
  it returns; the empty mapping gives the empty list. For the mapping
  \<open>{Python: 10, JS: 30, Go: 5, Rust: 30, C: 1, Java: 2}\<close> the result has exactly five
  names, in descending order of weight, and \<open>C\<close> is not among them.
\<close>

theorem getTopLanguages_top5:
  assumes "distinct (map fst ls)"
  shows "length (getTopLanguages ls) \<le> 5
       \<and> length (getTopLanguages ls) = min 5 (length ls)
       \<and> distinct (getTopLanguages ls)
       \<and> set (getTopLanguages ls) \<subseteq> fst ` set ls
       \<and> sorted_wrt (\<lambda>a b. the (map_of ls b) \<le> the (map_of ls a)) (getTopLanguages ls)
       \<and> (\<forall>a \<in> set (getTopLanguages ls). \<forall>b \<in> fst ` set ls - set (getTopLanguages ls).
             the (map_of ls b) \<le> the (map_of ls a))
       \<and> getTopLanguages [] = []
       \<and> length (getTopLanguages example_languages) = 5
       \<and> sorted_wrt (\<lambda>a b. the (map_of example_languages b) \<le> the (map_of example_languages a))
            (getTopLanguages example_languages)
       \<and> ''C'' \<notin> set (getTopLanguages example_languages)"
proof -
  let ?cmp = "\<lambda>(a::string \<times> int) (b::string \<times> int). snd b - snd a"
  let ?sorted = "array_sort ?cmp ls"
  let ?top = "take 5 ?sorted"
  have names: "getTopLanguages ls = map fst ?top"
    by (simp add: getTopLanguages_def slice0_def)
  have sub: "set ?top \<subseteq> set ls"
    using set_take_subset [of 5 ?sorted] by (simp add: set_array_sort)
  have weight: "map_of ls (fst x) = Some (snd x)" if "x \<in> set ls" for x
    using that by (rule weight_of_entry [OF assms])
  have len: "length (getTopLanguages ls) = min 5 (length ls)"
    by (simp add: names length_array_sort min.commute)
  then have len5: "length (getTopLanguages ls) \<le> 5" by simp
  have "distinct (map fst ?sorted)"
    using assms by (simp add: distinct_map_array_sort)
  then have dist: "distinct (getTopLanguages ls)"
    unfolding names take_map [symmetric] by (rule distinct_take)
  have keys: "set (getTopLanguages ls) \<subseteq> fst ` set ls"
    using sub by (auto simp: names)
  have desc_all: "sorted_wrt (\<lambda>x y. snd y \<le> snd x) (?top @ drop 5 ?sorted)"
    using descending_array_sort [of ls] by simp
  then have "sorted_wrt (\<lambda>x y. snd y \<le> snd x) ?top"
    unfolding sorted_wrt_append by blast
  moreover have "the (map_of ls (fst y)) \<le> the (map_of ls (fst x))"
    if "x \<in> set ?top" "y \<in> set ?top" "snd y \<le> snd x" for x y
  proof -
    from that sub have "x \<in> set ls" "y \<in> set ls" by auto
    then have "map_of ls (fst x) = Some (snd x)" "map_of ls (fst y) = Some (snd y)"
      by (simp_all add: weight)
    with that show ?thesis by simp
  qed
  ultimately have "sorted_wrt (\<lambda>x y. the (map_of ls (fst y)) \<le> the (map_of ls (fst x))) ?top"
    by (rule sorted_wrt_mono_rel [rotated])
  then have desc: "sorted_wrt (\<lambda>a b. the (map_of ls b) \<le> the (map_of ls a)) (getTopLanguages ls)"
    by (simp add: names sorted_wrt_map)
  have rest: "the (map_of ls b) \<le> the (map_of ls a)"
    if a: "a \<in> set (getTopLanguages ls)" and b: "b \<in> fst ` set ls - set (getTopLanguages ls)"
    for a b
  proof -
    from a obtain x where x: "x \<in> set ?top" "fst x = a"
      by (auto simp: names)
    from b obtain y where y: "y \<in> set ls" "fst y = b"
      by auto
    from b y have "y \<notin> set ?top"
      by (auto simp: names)
    moreover have "set ls = set ?top \<union> set (drop 5 ?sorted)"
      using set_append [of ?top "drop 5 ?sorted"] by (simp add: set_array_sort)
    ultimately have "y \<in> set (drop 5 ?sorted)"
      using y(1) by blast
    with desc_all x(1) have "snd y \<le> snd x"
      unfolding sorted_wrt_append by blast
    moreover from x(1) sub have "x \<in> set ls" by blast
    ultimately show ?thesis
      using weight [of x] weight [OF y(1)] x(2) y(2) by simp
  qed
  have ex: "getTopLanguages example_languages = [''JS'', ''Rust'', ''Python'', ''Go'', ''Java'']"
    by (simp add: getTopLanguages_def example_languages_def slice0_def array_sort_def)
  have e0: "getTopLanguages [] = []"
    by (simp add: getTopLanguages_def slice0_def array_sort_def)
  have e1: "length (getTopLanguages example_languages) = 5" by (simp add: ex)
  have e2: "sorted_wrt (\<lambda>a b. the (map_of example_languages b) \<le> the (map_of example_languages a))
            (getTopLanguages example_languages)"
    unfolding ex by (simp add: example_languages_def)
  have e3: "''C'' \<notin> set (getTopLanguages example_languages)" by (simp add: ex)
  from len5 len dist keys desc rest e0 e1 e2 e3 show ?thesis by blast
qed

theorem getTopLanguages_top5_witness:
  "distinct (map fst example_languages)
   \<and> getTopLanguages example_languages = [''JS'', ''Rust'', ''Python'', ''Go'', ''Java'']
   \<and> length (getTopLanguages example_languages) = min 5 (length example_languages)
   \<and> distinct (getTopLanguages example_languages)
   \<and> set (getTopLanguages example_languages) \<subseteq> fst ` set example_languages
   \<and> ''Java'' \<in> set (getTopLanguages example_languages)
   \<and> ''C'' \<in> fst ` set example_languages - set (getTopLanguages example_languages)
   \<and> the (map_of example_languages ''C'') \<le> the (map_of example_languages ''Java'')"
proof -
  have d: "distinct (map fst example_languages)"
    by (simp add: example_languages_def)
  have v: "getTopLanguages example_languages = [''JS'', ''Rust'', ''Python'', ''Go'', ''Java'']"
    by (simp add: getTopLanguages_def example_languages_def slice0_def array_sort_def)
  have kept: "''Java'' \<in> set (getTopLanguages example_languages)"
    by (simp add: v)
  have left: "''C'' \<in> fst ` set example_languages - set (getTopLanguages example_languages)"
    unfolding v by (simp add: example_languages_def)
  note all = getTopLanguages_top5 [OF d]
  from all kept left
  have "the (map_of example_languages ''C'') \<le> the (map_of example_languages ''Java'')"
    by blast
  with d v kept left all show ?thesis by blast
qed




text \<open>
  C3. In every state that the component reaches from its initial state, by any sequence
  of events and with calls of \<open>generateCV\<close> overlapping in any way, if \<open>showCV\<close> is true
  then a lookup has succeeded before, and \<open>githubData\<close>, \<open>topProjects\<close> and \<open>languages\<close>
  hold what the latest successful lookup returned.
\<close>

theorem preview_only_after_fetch:
  assumes "showCV (comp (run events initial_session))"
  shows "\<exists>d. fetched (run events initial_session) = Some d
           \<and> githubData (comp (run events initial_session)) = Some (user_data d)
           \<and> topProjects (comp (run events initial_session)) = top_repos d
           \<and> languages (comp (run events initial_session)) = data_languages d"
proof -
  have "consistent (run events initial_session)"
    using consistent_initial by (rule consistent_run)
  with assms show ?thesis
    by (auto simp: consistent_def holds_data_def split: option.splits)
qed

theorem preview_only_after_fetch_witness:
  "showCV (comp (run example_events initial_session))
   \<and> (\<exists>d. fetched (run example_events initial_session) = Some d
           \<and> githubData (comp (run example_events initial_session)) = Some (user_data d)
           \<and> topProjects (comp (run example_events initial_session)) = top_repos d
           \<and> languages (comp (run example_events initial_session)) = data_languages d)"
proof -
  have shown: "showCV (comp (run example_events initial_session))"
    by (simp add: example_events_def run_def initial_session_def initial_def handleChange_def
        required_missing_def falsy_def fetchGitHubData_start_def fetchGitHubData_settle_def
        generateCV_settle_def)
  from shown preview_only_after_fetch [OF shown] show ?thesis by blast
qed

text \<open>
  C4. When one of the required fields \<open>name\<close>, \<open>email\<close>, \<open>education\<close>, \<open>university\<close> is
  the empty string, \<open>generateCV\<close> stores the validation message in \<open>error\<close>, changes
  nothing else and issues no request, whatever the network would have answered.
\<close>

theorem generateCV_required_blank:
  assumes "formData st ''name'' = Some [] \<or> formData st ''email'' = Some []
           \<or> formData st ''education'' = Some [] \<or> formData st ''university'' = Some []"
  shows "generateCV lookup generation st =
           (st\<lparr>error := ''Please fill in all required fields''\<rparr>, [])"
proof -
  from assms have "required_missing (formData st)"
    by (auto simp: required_missing_def falsy_def)
  then show ?thesis by (simp add: generateCV_def)
qed

theorem generateCV_required_blank_witness:
  "formData (handleChange ''name'' ''Ada'' initial) ''email'' = Some []
   \<and> generateCV (LookupOk (Json example_data)) GenerateOk (handleChange ''name'' ''Ada'' initial) =
       ((handleChange ''name'' ''Ada'' initial)\<lparr>error := ''Please fill in all required fields''\<rparr>,
        [])"
proof -
  have blank: "formData (handleChange ''name'' ''Ada'' initial) ''email'' = Some []"
    by (simp add: handleChange_def initial_def)
  then have "formData (handleChange ''name'' ''Ada'' initial) ''name'' = Some []
           \<or> formData (handleChange ''name'' ''Ada'' initial) ''email'' = Some []
           \<or> formData (handleChange ''name'' ''Ada'' initial) ''education'' = Some []
           \<or> formData (handleChange ''name'' ''Ada'' initial) ''university'' = Some []"
    by blast
  from blank generateCV_required_blank [OF this] show ?thesis by blast
qed

text \<open>
  C5. When \<open>githubUsername\<close> is the empty string, \<open>fetchGitHubData\<close> stores the
  validation message in \<open>error\<close>, changes nothing else and issues no request; the form
  view shows the message.
\<close>

theorem fetchGitHubData_empty_username:
  assumes "formData st ''githubUsername'' = Some []"
  shows "fetchGitHubData reply st =
           (Undefined, st\<lparr>error := ''Please enter a GitHub username''\<rparr>, [])
         \<and> (\<not> showCV st \<longrightarrow>
              (\<exists>inputs loading. render (fst (snd (fetchGitHubData reply st))) =
                 FormView inputs loading (Some ''Please enter a GitHub username'')))"
  using assms
  by (simp add: fetchGitHubData_def fetchGitHubData_start_def falsy_def render_def)

theorem fetchGitHubData_empty_username_witness:
  "formData initial ''githubUsername'' = Some [] \<and> \<not> showCV initial
   \<and> fetchGitHubData (LookupOk (Json example_data)) initial =
       (Undefined, initial\<lparr>error := ''Please enter a GitHub username''\<rparr>, [])
   \<and> (\<exists>inputs loading. render (fst (snd (fetchGitHubData (LookupOk (Json example_data)) initial))) =
         FormView inputs loading (Some ''Please enter a GitHub username''))"
proof -
  have u: "formData initial ''githubUsername'' = Some []" and v: "\<not> showCV initial"
    by (simp_all add: initial_def)
  from u v fetchGitHubData_empty_username [OF u, of "LookupOk (Json example_data)"]
  show ?thesis by blast
qed




text \<open>
  C7. In the network calls of one \<open>generateCV\<close>, a generation request is issued only
  after the lookup request was issued and after it has settled with success, and it
  carries that lookup's body; when the lookup fails no generation request is issued.
\<close>

theorem generateCV_sequential:
  "(\<forall>j url headers fd d.
      j < length (snd (generateCV lookup generation st))
      \<and> snd (generateCV lookup generation st) ! j = Issued (HttpPost url headers fd d) \<longrightarrow>
        (\<exists>i k. i < k \<and> k < j
           \<and> (\<exists>get. snd (generateCV lookup generation st) ! i = Issued (HttpGet get))
           \<and> snd (generateCV lookup generation st) ! k = LookupSettled lookup
           \<and> lookup_response lookup = Inr d))
   \<and> (\<forall>m. lookup_response lookup = Inl m \<longrightarrow>
        (\<forall>url headers fd d.
           Issued (HttpPost url headers fd d) \<notin> set (snd (generateCV lookup generation st))))"
proof -
  let ?calls = "snd (generateCV lookup generation st)"
  from generateCV_calls [of lookup generation st]
  consider (none) "?calls = []"
    | (one) url m where "lookup_response lookup = Inl m"
        "?calls = [Issued (HttpGet url), LookupSettled lookup]"
    | (two) url d where "lookup_response lookup = Inr d"
        "?calls = [Issued (HttpGet url), LookupSettled lookup,
                   Issued (generate_request (formData st) d), GenerateSettled generation]"
    by blast
  then show ?thesis
  proof cases
    case none
    then show ?thesis by simp
  next
    case one
    then show ?thesis by (simp add: nth_Cons' less_Suc_eq)
  next
    case two
    have "\<exists>i k. i < k \<and> k < j
           \<and> (\<exists>get. ?calls ! i = Issued (HttpGet get))
           \<and> ?calls ! k = LookupSettled lookup \<and> lookup_response lookup = Inr d'"
      if "j < length ?calls" "?calls ! j = Issued (HttpPost u h fd d')" for j u h fd d'
    proof -
      from that two have j: "j = 2" and d: "d' = d"
        by (auto simp: nth_Cons' generate_request_def less_Suc_eq split: if_splits)
      have "(0::nat) < 1 \<and> (1::nat) < 2 \<and> (\<exists>get. ?calls ! 0 = Issued (HttpGet get))
            \<and> ?calls ! 1 = LookupSettled lookup \<and> lookup_response lookup = Inr d"
        using two by simp
      then show ?thesis unfolding j d by blast
    qed
    moreover have "\<forall>m. lookup_response lookup \<noteq> Inl m" using two by simp
    ultimately show ?thesis by blast
  qed
qed

theorem generateCV_sequential_witness:
  "2 < length (snd (generateCV (LookupOk (Json example_data)) GenerateOk example_form))
   \<and> snd (generateCV (LookupOk (Json example_data)) GenerateOk example_form) ! 2 =
       Issued (generate_request (formData example_form) example_data)
   \<and> (\<exists>i k. i < k \<and> k < 2
        \<and> (\<exists>get. snd (generateCV (LookupOk (Json example_data)) GenerateOk example_form) ! i =
              Issued (HttpGet get))
        \<and> snd (generateCV (LookupOk (Json example_data)) GenerateOk example_form) ! k =
              LookupSettled (LookupOk (Json example_data))
        \<and> lookup_response (LookupOk (Json example_data)) = Inr example_data)
   \<and> lookup_response (LookupRejects ''Failed to fetch'') = Inl ''Failed to fetch''
   \<and> Issued (generate_request (formData example_form) example_data)
       \<notin> set (snd (generateCV (LookupRejects ''Failed to fetch'') GenerateOk example_form))"
proof -
  let ?calls = "snd (generateCV (LookupOk (Json example_data)) GenerateOk example_form)"
  have calls: "?calls =
      [Issued (HttpGet (API_URL @ ''/api/github-profile?username=''
                          @ template (formData example_form ''githubUsername''))),
       LookupSettled (LookupOk (Json example_data)),
       Issued (generate_request (formData example_form) example_data),
       GenerateSettled GenerateOk]"
    using example_form_valid
    by (simp add: generateCV_def fetchGitHubData_issued fetchGitHubData_settle_def)
  have len: "2 < length ?calls" and at: "?calls ! 2 =
      Issued (HttpPost (API_URL @ ''/api/generate-cv'') [(''Content-Type'', ''application/json'')]
                (formData example_form) example_data)"
    unfolding calls by (simp_all add: generate_request_def)
  have rej: "lookup_response (LookupRejects ''Failed to fetch'') = Inl ''Failed to fetch''"
    by simp
  from generateCV_sequential [of "LookupOk (Json example_data)" GenerateOk example_form] len at
  have first: "\<exists>i k. i < k \<and> k < 2
        \<and> (\<exists>get. ?calls ! i = Issued (HttpGet get))
        \<and> ?calls ! k = LookupSettled (LookupOk (Json example_data))
        \<and> lookup_response (LookupOk (Json example_data)) = Inr example_data"
    by blast
  from generateCV_sequential [of "LookupRejects ''Failed to fetch''" GenerateOk example_form] rej
  have second: "Issued (generate_request (formData example_form) example_data)
       \<notin> set (snd (generateCV (LookupRejects ''Failed to fetch'') GenerateOk example_form))"
    unfolding generate_request_def by blast
  from len at first rej second show ?thesis
    unfolding generate_request_def by blast
qed




text \<open>
  C9. Ties are resolved by the order of enumeration: for every weight \<open>w\<close>, the names of
  weight \<open>w\<close> in the result of \<open>getTopLanguages\<close> are an initial part of the names of
  weight \<open>w\<close> in the order in which the mapping enumerates them.
\<close>

theorem getTopLanguages_stable:
  assumes "distinct (map fst ls)"
  shows "prefix (filter (\<lambda>n. map_of ls n = Some w) (getTopLanguages ls))
                (filter (\<lambda>n. map_of ls n = Some w) (map fst ls))"
proof -
  let ?cmp = "\<lambda>(a::string \<times> int) (b::string \<times> int). snd b - snd a"
  let ?sorted = "array_sort ?cmp ls"
  have same: "filter (\<lambda>e. map_of ls (fst e) = Some w) xs = filter (\<lambda>e. snd e = w) xs"
    if "set xs \<subseteq> set ls" for xs
    using that weight_of_entry [OF assms] by (intro filter_cong) auto
  have "set (take 5 ?sorted) \<subseteq> set ls"
    using set_take_subset [of 5 ?sorted] by (simp add: set_array_sort)
  then have "filter (\<lambda>n. map_of ls n = Some w) (getTopLanguages ls) =
        map fst (filter (\<lambda>e. snd e = w) (take 5 ?sorted))"
    by (simp add: getTopLanguages_def slice0_def filter_map o_def same)
  moreover have "filter (\<lambda>n. map_of ls n = Some w) (map fst ls) =
        map fst (filter (\<lambda>e. snd e = w) ?sorted)"
    by (simp add: filter_map o_def same filter_weight_array_sort)
  moreover have "prefix (filter (\<lambda>e. snd e = w) (take 5 ?sorted)) (filter (\<lambda>e. snd e = w) ?sorted)"
    by (rule prefix_filter_take)
  ultimately show ?thesis by (simp add: map_mono_prefix)
qed

theorem getTopLanguages_stable_witness:
  "distinct (map fst example_languages)
   \<and> filter (\<lambda>n. map_of example_languages n = Some 30) (getTopLanguages example_languages) =
       [''JS'', ''Rust'']
   \<and> filter (\<lambda>n. map_of example_languages n = Some 30) (map fst example_languages) =
       [''JS'', ''Rust'']
   \<and> prefix (filter (\<lambda>n. map_of example_languages n = Some 30) (getTopLanguages example_languages))
            (filter (\<lambda>n. map_of example_languages n = Some 30) (map fst example_languages))"
proof -
  have d: "distinct (map fst example_languages)"
    by (simp add: example_languages_def)
  have v: "getTopLanguages example_languages = [''JS'', ''Rust'', ''Python'', ''Go'', ''Java'']"
    by (simp add: getTopLanguages_def example_languages_def slice0_def array_sort_def)
  have a: "filter (\<lambda>n. map_of example_languages n = Some 30) (getTopLanguages example_languages) =
       [''JS'', ''Rust'']"
    unfolding v by (simp add: example_languages_def)
  have b: "filter (\<lambda>n. map_of example_languages n = Some 30) (map fst example_languages) =
       [''JS'', ''Rust'']"
    by (simp add: example_languages_def)
  from d a b getTopLanguages_stable [OF d, of 30] show ?thesis by blast
qed

text \<open>
  C10. \<open>handleChange\<close> for the input named \<open>n\<close> with value \<open>v\<close> sets the property \<open>n\<close> of
  \<open>formData\<close> to \<open>v\<close> and leaves every other property of \<open>formData\<close> and every other part
  of the state as it was.
\<close>

theorem handleChange_frame:
  "formData (handleChange n v st) n = Some v
   \<and> (\<forall>m. m \<noteq> n \<longrightarrow> formData (handleChange n v st) m = formData st m)
   \<and> githubData (handleChange n v st) = githubData st
   \<and> topProjects (handleChange n v st) = topProjects st
   \<and> languages (handleChange n v st) = languages st
   \<and> isLoading (handleChange n v st) = isLoading st
   \<and> error (handleChange n v st) = error st
   \<and> showCV (handleChange n v st) = showCV st"
  by (simp add: handleChange_def)

theorem handleChange_frame_witness:
  "formData (handleChange ''email'' ''ada@example.org'' initial) ''email'' =
       Some ''ada@example.org''
   \<and> formData (handleChange ''email'' ''ada@example.org'' initial) ''name'' =
       formData initial ''name''
   \<and> showCV (handleChange ''email'' ''ada@example.org'' initial) = showCV initial"
  using handleChange_frame [of "''email''" "''ada@example.org''" initial]
  by simp

end
